theory Spec2Isabelle
  imports Complex_Main "HOL-Library.Finite_Map"
begin

section \<open>Python values shared by the embedded functions\<close>

text \<open>
  Python's unbounded integers are \<^typ>\<open>int\<close>; a Python list is a HOL list. The exceptions
  that the embedded functions can raise are values of \<open>py_error\<close>, and a function that can
  raise returns \<open>py_error + 'a\<close>.
\<close>

datatype py_error = ZeroDivisionError | ValueError | JSONDecodeError

text \<open>
  \<open>seq[lo:hi]\<close>: a negative bound counts from the end, and both bounds are clamped to the
  list, so a slice never raises.
\<close>

definition slice_index :: "int \<Rightarrow> int \<Rightarrow> nat" where
  "slice_index n i = (if i < 0 then nat (max 0 (n + i)) else nat (min n i))"

definition py_slice :: "'a list \<Rightarrow> int \<Rightarrow> int \<Rightarrow> 'a list" where
  "py_slice seq lo hi =
     (let n = int (length seq); a = slice_index n lo; b = slice_index n hi
      in take (b - a) (drop a seq))"

text \<open>\<open>range(n)\<close> is empty for \<open>n \<le> 0\<close>.\<close>

definition py_range :: "int \<Rightarrow> int list" where
  "py_range n = map int [0..<nat n]"

section \<open>Splitting the well list: \<open>split_wells.chunks_even\<close> and \<open>chunkify\<close>\<close>

text \<open>
  Both functions run the same loop: chunk \<open>k\<close> has \<open>base + 1\<close> elements when \<open>k < rem\<close> and
  \<open>base\<close> otherwise, and is the slice \<open>seq[i:i+sz]\<close> at the running offset \<open>i\<close>. The loop
  state is the pair \<open>(out, i)\<close>.
\<close>

fun chunk_loop :: "'a list \<Rightarrow> int \<Rightarrow> int \<Rightarrow> int list \<Rightarrow> 'a list list \<times> int \<Rightarrow> 'a list list \<times> int" where
  "chunk_loop seq base rem [] (out, i) = (out, i)"
| "chunk_loop seq base rem (k # ks) (out, i) =
     (let sz = base + (if k < rem then 1 else 0)
      in chunk_loop seq base rem ks (out @ [py_slice seq i (i + sz)], i + sz))"

text \<open>\<open>chunks_even(seq, parts)\<close>: \<open>n // parts\<close> raises for \<open>parts = 0\<close>.\<close>

definition chunks_even :: "'a list \<Rightarrow> int \<Rightarrow> py_error + 'a list list" where
  "chunks_even seq parts =
     (if parts = 0 then Inl ZeroDivisionError
      else let n = int (length seq); base = n div parts; rem = n mod parts
           in Inr (fst (chunk_loop seq base rem (py_range parts) ([], 0))))"

text \<open>\<open>chunkify(seq, n)\<close> first replaces \<open>n\<close> by \<open>max(1, n)\<close>, so \<open>divmod\<close> cannot raise.\<close>

definition chunkify :: "'a list \<Rightarrow> int \<Rightarrow> 'a list list" where
  "chunkify seq n0 =
     (let n = max 1 n0; k = int (length seq) div n; m = int (length seq) mod n
      in fst (chunk_loop seq k m (py_range n) ([], 0)))"

text \<open>Size of chunk \<open>k\<close>, as the loop body computes it.\<close>

definition chunk_size :: "int \<Rightarrow> int \<Rightarrow> int \<Rightarrow> int" where
  "chunk_size base rem k = base + (if k < rem then 1 else 0)"

section \<open>Per-well state: \<open>aer_multi_dash_mp.py\<close> (newtest)\<close>

text \<open>
  The per-well state is one JSON object. The dictionaries with a fixed set of keys, as the
  program builds them, are records; the dictionaries keyed by dashboard code and by sheet name
  are finite maps. Timestamps are the ISO strings of \<open>datetime.now(timezone.utc).isoformat()\<close>,
  read from the clock by the caller and passed in.
  \<^verbatim>\<open>{"well_label": ..., "uwi_wrapped": ..., "wells_txt_entry": ..., "updated_at": ...,
   "dashboards": {code: {"status": ..., "last_update": ...,
                         "files": {sheet: {"status": ..., "s3_key": ...}}}}}\<close>
\<close>

record file_meta =
  f_status :: string
  s3_key :: string

record dashboard =
  d_status :: string
  files :: "(string, file_meta) fmap"
  last_update :: string

record well_state =
  well_label :: string
  uwi_wrapped :: string
  wells_txt_entry :: "string option"
  dashboards :: "(string, dashboard) fmap"
  updated_at :: string

text \<open>\<open>m.setdefault(k, v)\<close>: the map after the call, and the value the call returns.\<close>

definition setdefault :: "('k, 'v) fmap \<Rightarrow> 'k \<Rightarrow> 'v \<Rightarrow> ('k, 'v) fmap" where
  "setdefault m k v = (case fmlookup m k of None \<Rightarrow> fmupd k v m | Some _ \<Rightarrow> m)"

definition setdefault_value :: "('k, 'v) fmap \<Rightarrow> 'k \<Rightarrow> 'v \<Rightarrow> 'v" where
  "setdefault_value m k v = (case fmlookup m k of None \<Rightarrow> v | Some w \<Rightarrow> w)"

text \<open>The two default entries: \<open>{"status": "incomplete", "files": {}, "last_update": ""}\<close>
  and \<open>{"status": "incomplete", "s3_key": ""}\<close>.\<close>

definition new_dashboard :: dashboard where
  "new_dashboard = \<lparr>d_status = ''incomplete'', files = fmempty, last_update = ''''\<rparr>"

definition new_file :: file_meta where
  "new_file = \<lparr>f_status = ''incomplete'', s3_key = ''''\<rparr>"

text \<open>\<open>state_save\<close> stamps \<open>updated_at\<close> and writes the object; the value it writes is:\<close>

definition state_save :: "well_state \<Rightarrow> string \<Rightarrow> well_state" where
  "state_save well_state now = well_state\<lparr>updated_at := now\<rparr>"

text \<open>The loop \<open>for s in all_sheets: files.setdefault(s, {...})\<close>.\<close>

fun ensure_entries :: "string list \<Rightarrow> (string, file_meta) fmap \<Rightarrow> (string, file_meta) fmap" where
  "ensure_entries [] fs = fs"
| "ensure_entries (s # ss) fs = ensure_entries ss (setdefault fs s new_file)"

text \<open>
  \<open>state_list_incomplete_sheets\<close> mutates the state it is given and returns the list; the model
  returns both. \<open>files.get(s, {}).get("status")\<close> is \<open>None\<close> for a sheet without entry.
\<close>

definition state_list_incomplete_sheets ::
  "well_state \<Rightarrow> string \<Rightarrow> string list \<Rightarrow> string list \<times> well_state" where
  "state_list_incomplete_sheets well_state dash_code all_sheets =
     (let d = setdefault_value (dashboards well_state) dash_code new_dashboard;
          fs = ensure_entries all_sheets (files d);
          d' = d\<lparr>files := fs\<rparr>;
          st' = well_state\<lparr>dashboards := fmupd dash_code d' (dashboards well_state)\<rparr>
      in (filter (\<lambda>s. map_option f_status (fmlookup fs s) \<noteq> Some ''complete'') all_sheets, st'))"

text \<open>
  \<open>all(meta.get("status") == "complete" for meta in d["files"].values()) if d["files"] else True\<close>
\<close>

definition all_complete :: "(string, file_meta) fmap \<Rightarrow> bool" where
  "all_complete fs =
     (if fs \<noteq> fmempty then fBall (fmran fs) (\<lambda>meta. f_status meta = ''complete'') else True)"

text \<open>
  \<open>state_mark_sheet_complete\<close> and \<open>state_mark_dashboard_done\<close> load the state, change it and
  save it. The functions below are the change from the loaded state \<open>st\<close> to the saved one;
  \<open>now\<close> is the clock reading for \<open>last_update\<close>, \<open>now'\<close> the later one of \<open>state_save\<close>.
\<close>

definition state_mark_sheet_complete ::
  "well_state \<Rightarrow> string \<Rightarrow> string \<Rightarrow> string \<Rightarrow> string \<Rightarrow> string \<Rightarrow> well_state" where
  "state_mark_sheet_complete st dash_code sheet key now now' =
     (let d = setdefault_value (dashboards st) dash_code new_dashboard;
          f = setdefault_value (files d) sheet new_file;
          f' = f\<lparr>f_status := ''complete'', s3_key := key\<rparr>;
          d1 = d\<lparr>files := fmupd sheet f' (files d), last_update := now\<rparr>;
          d2 = d1\<lparr>d_status := (if all_complete (files d1) then ''complete'' else ''incomplete'')\<rparr>
      in state_save (st\<lparr>dashboards := fmupd dash_code d2 (dashboards st)\<rparr>) now')"

definition state_mark_dashboard_done ::
  "well_state \<Rightarrow> string \<Rightarrow> string \<Rightarrow> string \<Rightarrow> well_state" where
  "state_mark_dashboard_done st dash_code now now' =
     (let d = setdefault_value (dashboards st) dash_code new_dashboard;
          d1 = d\<lparr>d_status := (if all_complete (files d) then ''complete'' else ''incomplete'')\<rparr>;
          d2 = d1\<lparr>last_update := now\<rparr>
      in state_save (st\<lparr>dashboards := fmupd dash_code d2 (dashboards st)\<rparr>) now')"

section \<open>Strings\<close>

text \<open>
  A Python \<open>str\<close> is modelled as a \<^typ>\<open>string\<close>: a list of characters with code points below
  256. On these, \<open>str.isspace\<close> holds for the twelve characters below, the decimal digits
  that \<open>\d\<close> matches are \<open>0\<close> to \<open>9\<close>, and \<open>.\<close> matches every character but the line feed.
\<close>

definition is_space :: "char \<Rightarrow> bool" where
  "is_space c \<longleftrightarrow> c \<in> set [CHR 0x09, CHR 0x0A, CHR 0x0B, CHR 0x0C, CHR 0x0D,
     CHR 0x1C, CHR 0x1D, CHR 0x1E, CHR 0x1F, CHR 0x20, CHR 0x85, CHR 0xA0]"

text \<open>\<open>s.strip()\<close>\<close>

definition strip :: "string \<Rightarrow> string" where
  "strip s = rev (dropWhile is_space (rev (dropWhile is_space s)))"

text \<open>\<open>s.startswith(p)\<close> and \<open>s.endswith(p)\<close>\<close>

definition startswith :: "string \<Rightarrow> string \<Rightarrow> bool" where
  "startswith s p \<longleftrightarrow> take (length p) s = p"

definition endswith :: "string \<Rightarrow> string \<Rightarrow> bool" where
  "endswith s p \<longleftrightarrow> length p \<le> length s \<and> drop (length s - length p) s = p"

definition is_digit :: "char \<Rightarrow> bool" where
  "is_digit c \<longleftrightarrow> c \<in> set ''0123456789''"

definition is_upper_or_digit :: "char \<Rightarrow> bool" where
  "is_upper_or_digit c \<longleftrightarrow> c \<in> set ''ABCDEFGHIJKLMNOPQRSTUVWXYZ0123456789''"

section \<open>Short and wrapped well identifiers\<close>

subsection \<open>The scraper: \<open>WRAPPED_RE\<close>, \<open>ensure_wrapped\<close>, \<open>to_short_uwi\<close>\<close>

text \<open>
  \<open>WRAPPED_RE = re.compile(r"^([A-Z0-9]{1,2})/(.+)/(\d)$")\<close>, used with \<open>match\<close>. The matcher
  below tries the alternatives in the order of the backtracking engine and returns the three
  groups of the first success: the prefix of two characters before the prefix of one; the
  longest body first; after the body a slash, a digit, and the end of the string or one line
  feed before the end (\<open>$\<close> without \<open>MULTILINE\<close>).
\<close>

definition match_tail :: "string \<Rightarrow> bool" where
  "match_tail t \<longleftrightarrow>
     (case t of
        [a, d] \<Rightarrow> a = CHR ''/'' \<and> is_digit d
      | [a, d, e] \<Rightarrow> a = CHR ''/'' \<and> is_digit d \<and> e = CHR 0x0A
      | _ \<Rightarrow> False)"

fun match_body :: "string \<Rightarrow> nat \<Rightarrow> (string \<times> string) option" where
  "match_body rest 0 = None"
| "match_body rest (Suc n) =
     (if (\<forall>c \<in> set (take (Suc n) rest). c \<noteq> CHR 0x0A) \<and> match_tail (drop (Suc n) rest)
      then Some (take (Suc n) rest, take 1 (drop (Suc (Suc n)) rest))
      else match_body rest n)"

definition match_prefix :: "nat \<Rightarrow> string \<Rightarrow> (string \<times> string \<times> string) option" where
  "match_prefix p s =
     (if p < length s \<and> (\<forall>c \<in> set (take p s). is_upper_or_digit c) \<and> s ! p = CHR ''/''
      then (case match_body (drop (Suc p) s) (length s - Suc p) of
              None \<Rightarrow> None
            | Some (body, digit) \<Rightarrow> Some (take p s, body, digit))
      else None)"

definition WRAPPED_RE_match :: "string \<Rightarrow> (string \<times> string \<times> string) option" where
  "WRAPPED_RE_match s =
     (case match_prefix 2 s of Some g \<Rightarrow> Some g | None \<Rightarrow> match_prefix 1 s)"

definition ensure_wrapped :: "string \<Rightarrow> string" where
  "ensure_wrapped uwi =
     (let u = strip uwi
      in case WRAPPED_RE_match u of Some m \<Rightarrow> u | None \<Rightarrow> ''00/'' @ u @ ''/0'')"

definition to_short_uwi :: "string \<Rightarrow> string" where
  "to_short_uwi uwi =
     (case WRAPPED_RE_match (strip uwi) of Some (prefix, body, digit) \<Rightarrow> body | None \<Rightarrow> uwi)"

subsection \<open>The warehouse loader: \<open>wrap_uwi\<close>\<close>

definition wrap_uwi :: "string \<Rightarrow> string" where
  "wrap_uwi short_or_wrapped =
     (let s = strip short_or_wrapped
      in if startswith s ''00/'' \<and> endswith s ''/0'' then s else ''00/'' @ s @ ''/0'')"

section \<open>Delimiter detection\<close>

text \<open>
  \<open>text.splitlines()\<close>: a line ends at a line feed, a carriage return (with the line feed that
  follows it, if any), or one of the other line boundaries, here those below code point 256;
  the boundary is dropped, and a boundary at the very end opens no further line. The first
  argument holds the characters of the current line, last one first.
\<close>

definition is_linebreak :: "char \<Rightarrow> bool" where
  "is_linebreak c \<longleftrightarrow>
     c \<in> set [CHR 0x0A, CHR 0x0B, CHR 0x0C, CHR 0x0D, CHR 0x1C, CHR 0x1D, CHR 0x1E, CHR 0x85]"

fun splitlines_from :: "string \<Rightarrow> string \<Rightarrow> string list" where
  "splitlines_from cur [] = (if cur = [] then [] else [rev cur])"
| "splitlines_from cur [c] = (if is_linebreak c then [rev cur] else [rev (c # cur)])"
| "splitlines_from cur (c # d # cs) =
     (if c = CHR 0x0D \<and> d = CHR 0x0A then rev cur # splitlines_from [] cs
      else if is_linebreak c then rev cur # splitlines_from [] (d # cs)
      else splitlines_from (c # cur) (d # cs))"

definition splitlines :: "string \<Rightarrow> string list" where
  "splitlines text = splitlines_from [] text"

text \<open>\<open>[ln for ln in text.splitlines() if ln.strip()]\<close>\<close>

definition nonblank_lines :: "string \<Rightarrow> string list" where
  "nonblank_lines text = filter (\<lambda>ln. strip ln \<noteq> []) (splitlines text)"

text \<open>
  \<open>max(iterable, key=f)\<close> returns the first element whose key is maximal, and raises
  \<open>ValueError\<close> on an empty iterable (\<open>None\<close> here).
\<close>

fun py_max_key :: "('a \<Rightarrow> int) \<Rightarrow> 'a list \<Rightarrow> 'a option" where
  "py_max_key f [] = None"
| "py_max_key f (x # xs) = Some (foldl (\<lambda>b y. if f y > f b then y else b) x xs)"

text \<open>
  \<open>modal = max(set(cols), key=cols.count)\<close>. The order in which a Python set is iterated is not
  fixed by the language; it decides which value wins when two are equally frequent. It is the
  parameter \<open>set_iter\<close>, which lists the elements of \<open>set(cols)\<close> in iteration order.
\<close>

definition modal_of :: "(int list \<Rightarrow> int list) \<Rightarrow> int list \<Rightarrow> int option" where
  "modal_of set_iter cols = py_max_key (\<lambda>v. int (count_list cols v)) (set_iter cols)"

text \<open>
  The loop over the candidate delimiters is the same in both detectors. Its state is
  \<open>(best, best_var, best_modal)\<close>; \<open>best_var\<close> starts as \<open>float("inf")\<close>, which is \<open>None\<close> here,
  above every integer and equal to none. A delimiter is one character.
\<close>

definition var_less :: "int \<Rightarrow> int option \<Rightarrow> bool" where
  "var_less v best_var = (case best_var of None \<Rightarrow> True | Some b \<Rightarrow> v < b)"

fun delimiter_loop ::
  "(int list \<Rightarrow> int list) \<Rightarrow> string list \<Rightarrow> char list \<Rightarrow> char \<times> int option \<times> int \<Rightarrow>
   py_error + char \<times> int option \<times> int" where
  "delimiter_loop set_iter lines [] b = Inr b"
| "delimiter_loop set_iter lines (d # ds) (best, best_var, best_modal) =
     (let cols = map (\<lambda>ln. int (count_list ln d) + 1) lines
      in case modal_of set_iter cols of
           None \<Rightarrow> Inl ValueError
         | Some modal \<Rightarrow>
             (let var = sum_list (map (\<lambda>c. (c - modal)\<^sup>2) cols)
              in if var_less var best_var \<or> (best_var = Some var \<and> modal > best_modal)
                 then delimiter_loop set_iter lines ds (d, Some var, modal)
                 else delimiter_loop set_iter lines ds (best, best_var, best_modal)))"

definition CANDIDATE_DELIMS :: "char list" where
  "CANDIDATE_DELIMS = [CHR '','', CHR '';'', CHR 0x09, CHR ''|'']"

text \<open>\<open>pg_build_warehouse.detect_delimiter\<close> looks at the first 60 non-blank lines.\<close>

definition detect_delimiter :: "(int list \<Rightarrow> int list) \<Rightarrow> string \<Rightarrow> py_error + char" where
  "detect_delimiter set_iter text =
     (let lines = take 60 (nonblank_lines text)
      in if lines = [] then Inr (CHR '','')
         else map_sum id fst (delimiter_loop set_iter lines CANDIDATE_DELIMS (CHR '','', None, 0)))"

text \<open>\<open>aer_multi_dash_mp._detect_delimiter\<close> looks at the first 50, with the same candidates
  in its local \<open>CAND\<close>.\<close>

definition scraper_detect_delimiter :: "(int list \<Rightarrow> int list) \<Rightarrow> string \<Rightarrow> py_error + char" where
  "scraper_detect_delimiter set_iter text =
     (let CAND = [CHR '','', CHR '';'', CHR 0x09, CHR ''|''];
          lines = take 50 (nonblank_lines text)
      in if lines = [] then Inr (CHR '','')
         else map_sum id fst (delimiter_loop set_iter lines CAND (CHR '','', None, 0)))"

section \<open>Object storage through \<open>rclone\<close>\<close>

text \<open>
  The programs reach the object storage only by running \<open>rclone\<close>. A command is recorded with
  its path below \<open>REMOTE\<close>; \<open>Copyto\<close> stands for \<open>copyto --ignore-existing\<close> with the local file
  and the remote key, \<open>Rcat\<close> for \<open>rcat\<close> with the key and the text piped in.
\<close>

datatype rclone_cmd =
    Lsjson string
  | Deletefile string
  | Rcat string string
  | Copyto string string

text \<open>The fields of \<open>subprocess.CompletedProcess\<close> that the code reads.\<close>

record completed_process =
  returncode :: int
  stdout :: string

text \<open>
  One object of an \<open>lsjson\<close> listing, as \<open>json.loads\<close> returns it: a dictionary in which each of
  the keys that the code reads may be missing. \<open>other_keys\<close> names the further keys of the
  object (\<open>Name\<close>, \<open>Size\<close>, ...), which the code never reads; they matter only to \<open>if meta:\<close>,
  which is false for the empty dictionary.
\<close>

record ls_entry =
  Path :: "string option"
  IsDir :: "bool option"
  ModTime :: "string option"
  other_keys :: "string list"




text \<open>
  Everything outside the program is a parameter, collected in one record. The history is the
  list of commands run so far; what a command returns and what the clock shows may depend on
  it in any way.
  \<^item> \<open>rclone_run h c\<close>: the result of \<open>subprocess.run\<close> for command \<open>c\<close> after history \<open>h\<close>;
  \<^item> \<open>json_loads\<close>: \<open>json.loads\<close> on a listing, \<open>None\<close> when it raises;
  \<^item> \<open>time_time h\<close>: the reading of \<open>time.time()\<close> after history \<open>h\<close>, a real number (the
    rounding of floats is not modelled);
  \<^item> \<open>iso_timestamp m\<close>: \<open>datetime.fromisoformat(m.replace("Z", "+00:00")).timestamp()\<close>,
    \<open>None\<close> when it raises;
  \<^item> \<open>url_quote\<close>: \<open>urllib.parse.quote(_, safe="")\<close>;
  \<^item> \<open>path_name\<close> and \<open>path_parent\<close>: \<open>Path(k).name\<close> and
    \<open>str(Path(k).parent).replace("\\", "/")\<close>;
  \<^item> \<open>new_payload h\<close>: the JSON text with host, pid and start time that \<open>acquire_lock\<close>
    builds;
  \<^item> \<open>LOCK_TTL_SECONDS\<close>: the integer read from the environment when the module is loaded;
  \<^item> \<open>remote_mtime h k\<close>: the remote itself, which the program never sees but through
    \<open>rclone\<close>: the modification time of the object stored at key \<open>k\<close> after history \<open>h\<close>, \<open>None\<close>
    when no object is stored there. Nothing ties it to what \<open>rclone\<close> returns: a listing can
    fail while the object exists.
\<close>

record sys =
  rclone_run :: "rclone_cmd list \<Rightarrow> rclone_cmd \<Rightarrow> completed_process"
  json_loads :: "string \<Rightarrow> ls_entry list option"
  time_time :: "rclone_cmd list \<Rightarrow> real"
  iso_timestamp :: "string \<Rightarrow> real option"
  url_quote :: "string \<Rightarrow> string"
  path_name :: "string \<Rightarrow> string"
  path_parent :: "string \<Rightarrow> string"
  new_payload :: "rclone_cmd list \<Rightarrow> string"
  LOCK_TTL_SECONDS :: int
  remote_mtime :: "rclone_cmd list \<Rightarrow> string \<Rightarrow> real option"

text \<open>Running a command returns its result and extends the history.\<close>

definition run :: "sys \<Rightarrow> rclone_cmd \<Rightarrow> rclone_cmd list \<Rightarrow> completed_process \<times> rclone_cmd list" where
  "run sys c h = (rclone_run sys h c, h @ [c])"

subsection \<open>\<open>s3_merge.py\<close>: upload if new\<close>






subsection \<open>\<open>s3_lock.py\<close> (newtest): locks with a time to live\<close>










subsection \<open>\<open>s3_lock.py\<close> (old)\<close>





section \<open>The warehouse loader: \<open>pg_build_warehouse.py\<close>\<close>

subsection \<open>Column names\<close>

text \<open>
  \<open>snake\<close> and \<open>norm_key\<close> rest on the Unicode tables of the Python runtime, which are
  parameters: \<open>nfkd\<close> is \<open>unicodedata.normalize("NFKD", _)\<close>, \<open>is_word\<close> the characters that \<open>\w\<close>
  matches, \<open>str_lower\<close> is \<open>str.lower\<close>.
\<close>

record unicode_tables =
  nfkd :: "string \<Rightarrow> string"
  is_word :: "char \<Rightarrow> bool"
  str_lower :: "string \<Rightarrow> string"

text \<open>\<open>re.sub(P+, "_", s)\<close>: every maximal run of characters in \<open>P\<close> becomes one underscore.\<close>

function sub_runs :: "(char \<Rightarrow> bool) \<Rightarrow> string \<Rightarrow> string" where
  "sub_runs P [] = []"
| "sub_runs P (c # cs) =
     (if P c then CHR ''_'' # sub_runs P (dropWhile P cs) else c # sub_runs P cs)"
  by pat_completeness auto
termination
  by (relation "measure (\<lambda>(P, s). length s)") (auto simp: length_dropWhile_le less_Suc_eq_le)

text \<open>\<open>s.strip("_")\<close>\<close>

definition strip_underscores :: "string \<Rightarrow> string" where
  "strip_underscores s =
     rev (dropWhile (\<lambda>c. c = CHR ''_'') (rev (dropWhile (\<lambda>c. c = CHR ''_'') s)))"

definition snake :: "unicode_tables \<Rightarrow> string \<Rightarrow> string" where
  "snake py s0 =
     (let s1 = nfkd py s0;
          s2 = sub_runs (\<lambda>c. \<not> is_word py c) s1;
          s3 = str_lower py (strip_underscores (sub_runs (\<lambda>c. c = CHR ''_'') s2));
          s4 = (if s3 = [] then ''col'' else s3)
      in take 63 s4)"

text \<open>\<open>norm_key\<close>: \<open>re.sub(r"[^a-z0-9]+", "", h.strip().lower())\<close>\<close>

definition norm_key :: "unicode_tables \<Rightarrow> string \<Rightarrow> string" where
  "norm_key py h =
     filter (\<lambda>c. c \<in> set ''abcdefghijklmnopqrstuvwxyz0123456789'') (str_lower py (strip h))"

definition FORMATTED_SYNS :: "string list" where
  "FORMATTED_SYNS = [''wellidentifier'', ''formatteduwi'', ''welluwiformatted'',
     ''enterwellidentifieruwi'', ''prodstringuwiformatted'', ''uwiformatted'']"

text \<open>
  The fifth member of \<open>NUMERIC_SYNS\<close> in the source is \<open>uwi\<close> followed by an em dash, a
  character above code point 255; like \<open>uwi_\<close> and \<open>uwi-\<close> it equals no result of \<open>norm_key\<close>.
\<close>

definition NUMERIC_SYNS :: "string list" where
  "NUMERIC_SYNS = [''welluwi'', ''uwi'', ''uwi_'', ''uwi-'']"

text \<open>\<open>p in s\<close> for strings\<close>

fun contains :: "string \<Rightarrow> string \<Rightarrow> bool" where
  "contains [] p = (p = [])"
| "contains (c # cs) p = (take (length p) (c # cs) = p \<or> contains cs p)"

text \<open>
  \<open>rename_headers_to_canonical\<close> returns \<open>(mapped, idx_fmt, idx_num)\<close>; the loop below carries
  the three and the index \<open>i\<close> of \<open>enumerate\<close>.
\<close>

fun rename_loop ::
  "unicode_tables \<Rightarrow> nat \<Rightarrow> string list \<Rightarrow> string list \<times> nat option \<times> nat option \<Rightarrow>
   string list \<times> nat option \<times> nat option" where
  "rename_loop py i [] acc = acc"
| "rename_loop py i (h # hs) (mapped, idx_fmt, idx_num) =
     (let k = norm_key py h
      in if k \<in> set FORMATTED_SYNS \<or> (contains k ''uwi'' \<and> contains k ''formatted'')
            \<or> k = ''wellidentifier''
         then rename_loop py (Suc i) hs (mapped @ [''UWI_Formatted''], Some i, idx_num)
         else if k \<in> set NUMERIC_SYNS \<and> \<not> contains k ''formatted''
         then rename_loop py (Suc i) hs (mapped @ [''UWI_Numeric''], idx_fmt, Some i)
         else rename_loop py (Suc i) hs (mapped @ [snake py h], idx_fmt, idx_num))"

definition rename_headers_to_canonical ::
  "unicode_tables \<Rightarrow> string list \<Rightarrow> string list \<times> nat option \<times> nat option" where
  "rename_headers_to_canonical py header = rename_loop py 0 header ([], None, None)"

subsection \<open>Raw tables\<close>

text \<open>
  Of the database, the model keeps the raw schema: a finite map from table name to the column
  names in ordinal position. The connection is in autocommit mode, so each statement takes
  effect on its own. \<open>CREATE TABLE\<close> and \<open>ALTER TABLE ADD COLUMN\<close> raise when a column name is
  repeated, as PostgreSQL does, and a statement that raises changes nothing; the length limit
  of identifiers is not modelled. \<open>CREATE INDEX\<close> changes no column.
\<close>

datatype sql_error = DuplicateColumn | UndefinedTable

type_synonym raw_schema = "(string, string list) fmap"

definition KEEP_PROVENANCE :: bool where
  "KEEP_PROVENANCE = True"

definition table_exists :: "raw_schema \<Rightarrow> string \<Rightarrow> bool" where
  "table_exists cn table \<longleftrightarrow> fmlookup cn table \<noteq> None"

definition current_columns :: "raw_schema \<Rightarrow> string \<Rightarrow> string list" where
  "current_columns cn table = (case fmlookup cn table of None \<Rightarrow> [] | Some cols \<Rightarrow> cols)"

text \<open>The two statements: the schema afterwards, or the error raised.\<close>

definition create_table_if_not_exists ::
  "raw_schema \<Rightarrow> string \<Rightarrow> string list \<Rightarrow> sql_error + raw_schema" where
  "create_table_if_not_exists cn table cols =
     (if table_exists cn table then Inr cn
      else if \<not> distinct cols then Inl DuplicateColumn
      else Inr (fmupd table cols cn))"

definition add_column :: "raw_schema \<Rightarrow> string \<Rightarrow> string \<Rightarrow> sql_error + raw_schema" where
  "add_column cn table c =
     (case fmlookup cn table of
        None \<Rightarrow> Inl UndefinedTable
      | Some cols \<Rightarrow> if c \<in> set cols then Inl DuplicateColumn
                     else Inr (fmupd table (cols @ [c]) cn))"

text \<open>
  The functions of the loader return the schema they leave behind and the error that ended
  them, if any: what the statements before the failing one did stays done.
\<close>

definition create_empty_raw ::
  "raw_schema \<Rightarrow> string \<Rightarrow> string list \<Rightarrow> raw_schema \<times> sql_error option" where
  "create_empty_raw cn table extra_cols =
     (let cols = [''uwi_formatted''] @ extra_cols;
          cols' = (if KEEP_PROVENANCE
                   then cols @ [''source_dashboard'', ''source_sheet'', ''source_file'']
                   else cols)
      in case create_table_if_not_exists cn table cols' of
           Inl err \<Rightarrow> (cn, Some err)
         | Inr cn' \<Rightarrow> (cn', None))"

text \<open>The loop \<open>for c in to_add: ALTER TABLE ... ADD COLUMN\<close>; the first error ends it.\<close>

fun add_columns :: "raw_schema \<Rightarrow> string \<Rightarrow> string list \<Rightarrow> raw_schema \<times> sql_error option" where
  "add_columns cn table [] = (cn, None)"
| "add_columns cn table (c # cs) =
     (case add_column cn table c of
        Inl err \<Rightarrow> (cn, Some err)
      | Inr cn' \<Rightarrow> add_columns cn' table cs)"

definition ensure_raw_table ::
  "raw_schema \<Rightarrow> string \<Rightarrow> string list \<Rightarrow> raw_schema \<times> sql_error option" where
  "ensure_raw_table cn table union_cols =
     (if \<not> table_exists cn table
      then create_empty_raw cn table (filter (\<lambda>c. c \<noteq> ''uwi_formatted'') union_cols)
      else let existing = set (current_columns cn table);
               to_add = filter (\<lambda>c. c \<notin> existing) union_cols;
               to_add' = (if KEEP_PROVENANCE
                          then to_add @ filter (\<lambda>c. c \<notin> existing)
                                 [''source_dashboard'', ''source_sheet'', ''source_file'']
                          else to_add)
           in add_columns cn table to_add')"

subsection \<open>Loading one dataset in \<open>build\<close>\<close>

text \<open>
  \<open>FileInfo\<close>, and what \<open>read_csv_rows\<close> returns for the file: the header and the rows, each a
  list of cells. Reading and parsing the file is not modelled.
\<close>

record FileInfo =
  fi_path :: string
  fi_dashboard :: string
  fi_sheet :: string
  fi_uwi_short :: string

record csv_file =
  info :: FileInfo
  header :: "string list"
  body_rows :: "string list list"

text \<open>Step 2a, inner loop: \<open>for m in mapped: key = m.lower(); if key not in seen: ...\<close>\<close>

fun union_add ::
  "unicode_tables \<Rightarrow> string list \<Rightarrow> string list \<times> string set \<Rightarrow> string list \<times> string set" where
  "union_add py [] acc = acc"
| "union_add py (m # ms) (union_cols, seen) =
     (let key = str_lower py m
      in if key \<notin> seen then union_add py ms (union_cols @ [m], insert key seen)
         else union_add py ms (union_cols, seen))"

text \<open>Step 2a, outer loop over the files of the dataset; a file without header is skipped.\<close>

fun union_headers ::
  "unicode_tables \<Rightarrow> string list list \<Rightarrow> string list \<times> string set \<Rightarrow> string list \<times> string set" where
  "union_headers py [] acc = acc"
| "union_headers py (hdr # hdrs) acc =
     (if hdr = [] then union_headers py hdrs acc
      else let mapped = fst (rename_headers_to_canonical py hdr);
               mapped' = (if ''UWI_Formatted'' \<notin> set mapped then mapped @ [''UWI_Formatted'']
                          else mapped)
           in union_headers py hdrs (union_add py mapped' acc))"

text \<open>The end of step 2a: snake case, and the join key in front when it is missing.\<close>

definition dataset_union_cols :: "unicode_tables \<Rightarrow> string list list \<Rightarrow> string list" where
  "dataset_union_cols py hdrs =
     (let union_cols = map (snake py) (fst (union_headers py hdrs ([], {})))
      in if ''uwi_formatted'' \<notin> set union_cols then ''uwi_formatted'' # union_cols
         else union_cols)"

text \<open>The names under which the cells of a file are loaded: \<open>[snake(c) for c in mapped]\<close>.\<close>

definition file_mapped :: "unicode_tables \<Rightarrow> string list \<Rightarrow> string list" where
  "file_mapped py hdr = map (snake py) (fst (rename_headers_to_canonical py hdr))"

text \<open>
  Step 2c for one row. A short row is padded with empty cells:
  \<open>if len(r) < len(mapped): r = r + [""] * (len(mapped) - len(r))\<close>.
\<close>

definition pad_row :: "string list \<Rightarrow> string list \<Rightarrow> string list" where
  "pad_row mapped r =
     (if length r < length mapped then r @ replicate (length mapped - length r) [] else r)"

text \<open>
  \<open>rowdict = {mapped[i]: r[i] for i in range(len(mapped))}\<close>: a later column of the same name
  replaces an earlier one.
\<close>

definition row_dict :: "string list \<Rightarrow> string list \<Rightarrow> (string \<rightharpoonup> string)" where
  "row_dict mapped r = fold (\<lambda>i d. d(mapped ! i \<mapsto> r ! i)) [0..<length mapped] Map.empty"

text \<open>
  The row is padded, \<open>rowdict\<close> is built, \<open>uwi_formatted\<close> is made sure of, and the cells are
  assembled in the order of the table's columns. \<open>uwi_wrapped or ""\<close> is the wrapped folder
  name, or the empty string when there is no folder name.
\<close>

definition load_row :: "string list \<Rightarrow> string list \<Rightarrow> FileInfo \<Rightarrow> string list \<Rightarrow> string list" where
  "load_row load_cols mapped fi r0 =
     (let uwi_wrapped = (if fi_uwi_short fi \<noteq> [] then Some (wrap_uwi (fi_uwi_short fi))
                         else None);
          r = pad_row mapped r0;
          rowdict = row_dict mapped r;
          rowdict' =
            (if ''uwi_formatted'' \<in> set load_cols
             then (if (case rowdict ''uwi_formatted'' of None \<Rightarrow> False | Some v \<Rightarrow> strip v \<noteq> [])
                   then rowdict
                   else rowdict(''uwi_formatted'' \<mapsto> (case uwi_wrapped of None \<Rightarrow> [] | Some w \<Rightarrow> w)))
             else rowdict)
      in map (\<lambda>col.
           if KEEP_PROVENANCE \<and> col \<in> set [''source_dashboard'', ''source_sheet'', ''source_file'']
           then (if col = ''source_dashboard'' then fi_dashboard fi
                 else if col = ''source_sheet'' then fi_sheet fi
                 else fi_path fi)
           else (case rowdict' col of None \<Rightarrow> [] | Some v \<Rightarrow> v)) load_cols)"

text \<open>
  Steps 2a to 2c for one dataset: the schema that is left behind, the rows handed to
  \<open>insert_rows\<close>, in order (the batches of \<open>BATCH_ROWS\<close> are not modelled), and the error of the
  database that ended \<open>build\<close>, if any; then no row is loaded.
\<close>

definition load_dataset ::
  "unicode_tables \<Rightarrow> raw_schema \<Rightarrow> string \<Rightarrow> csv_file list \<Rightarrow>
   raw_schema \<times> string list list \<times> sql_error option" where
  "load_dataset py cn raw_table csv_files =
     (let union_cols = dataset_union_cols py (map header csv_files);
          (cn', err) = ensure_raw_table cn raw_table union_cols
      in case err of
           Some e \<Rightarrow> (cn', [], Some e)
         | None \<Rightarrow>
             (let load_cols = current_columns cn' raw_table
              in (cn', concat (map (\<lambda>f.
                   if header f = [] then []
                   else map (load_row load_cols (file_mapped py (header f)) (info f))
                          (body_rows f)) csv_files), None)))"

text \<open>Tables for the examples: plain ASCII.\<close>

definition ascii_tables :: unicode_tables where
  "ascii_tables =
     \<lparr>nfkd = (\<lambda>s. s),
      is_word = (\<lambda>c. c \<in> set ''abcdefghijklmnopqrstuvwxyzABCDEFGHIJKLMNOPQRSTUVWXYZ0123456789_''),
      str_lower = map (\<lambda>c. case map_of (zip ''ABCDEFGHIJKLMNOPQRSTUVWXYZ''
                                          ''abcdefghijklmnopqrstuvwxyz'') c of
                              None \<Rightarrow> c | Some l \<Rightarrow> l)\<rparr>"

section \<open>Properties of the even split\<close>

lemma py_slice_nonneg:
  "0 \<le> i \<Longrightarrow> 0 \<le> sz \<Longrightarrow> py_slice seq i (i + sz) = take (nat sz) (drop (nat i) seq)"
proof -
  assume i: "0 \<le> i" and sz: "0 \<le> sz"
  have a: "slice_index (int (length seq)) i = min (length seq) (nat i)"
    using i by (auto simp: slice_index_def min_def)
  have b: "slice_index (int (length seq)) (i + sz) = min (length seq) (nat i + nat sz)"
    using i sz by (auto simp: slice_index_def min_def nat_add_distrib)
  show ?thesis
  proof (cases "nat i \<le> length seq")
    case True
    then show ?thesis unfolding py_slice_def Let_def a b
      by (cases "nat i + nat sz \<le> length seq") (auto simp: min_def)
  next
    case False
    then show ?thesis unfolding py_slice_def Let_def a b by simp
  qed
qed

lemma chunk_loop_length:
  "length (fst (chunk_loop seq base rem ks (out, i))) = length out + length ks"
  by (induction ks arbitrary: out i) (simp_all add: Let_def)

lemma chunk_loop_concat:
  "0 \<le> i \<Longrightarrow> 0 \<le> base \<Longrightarrow>
   concat (fst (chunk_loop seq base rem ks (out, i))) =
   concat out @ take (nat (sum_list (map (chunk_size base rem) ks))) (drop (nat i) seq)"
proof (induction ks arbitrary: out i)
  case Nil
  then show ?case by simp
next
  case (Cons k ks)
  let ?sz = "chunk_size base rem k"
  have sz: "0 \<le> ?sz" using Cons.prems by (simp add: chunk_size_def)
  have rest: "0 \<le> sum_list (map (chunk_size base rem) ks)"
    using Cons.prems by (intro sum_list_nonneg) (auto simp: chunk_size_def)
  have "concat (fst (chunk_loop seq base rem (k # ks) (out, i))) =
        concat (out @ [py_slice seq i (i + ?sz)]) @
        take (nat (sum_list (map (chunk_size base rem) ks))) (drop (nat (i + ?sz)) seq)"
    using Cons.IH [of "i + ?sz" "out @ [py_slice seq i (i + ?sz)]"] Cons.prems sz
    by (simp add: Let_def chunk_size_def [symmetric])
  also have "\<dots> = concat out @ take (nat ?sz) (drop (nat i) seq) @
        take (nat (sum_list (map (chunk_size base rem) ks))) (drop (nat ?sz) (drop (nat i) seq))"
    using Cons.prems sz by (simp add: py_slice_nonneg nat_add_distrib add.commute)
  also have "\<dots> = concat out @ take (nat ?sz + nat (sum_list (map (chunk_size base rem) ks))) (drop (nat i) seq)"
    by (simp add: take_add)
  finally show ?case using sz rest by (simp add: nat_add_distrib)
qed

lemma chunk_loop_lengths:
  "0 \<le> i \<Longrightarrow> 0 \<le> base \<Longrightarrow> i + sum_list (map (chunk_size base rem) ks) \<le> int (length seq) \<Longrightarrow>
   map length (fst (chunk_loop seq base rem ks (out, i))) =
   map length out @ map (\<lambda>k. nat (chunk_size base rem k)) ks"
proof (induction ks arbitrary: out i)
  case Nil
  then show ?case by simp
next
  case (Cons k ks)
  let ?sz = "chunk_size base rem k"
  have sz: "0 \<le> ?sz" using Cons.prems by (simp add: chunk_size_def)
  have rest: "0 \<le> sum_list (map (chunk_size base rem) ks)"
    using Cons.prems by (intro sum_list_nonneg) (auto simp: chunk_size_def)
  have fit: "nat i + nat ?sz \<le> length seq" using Cons.prems sz rest by simp
  have "map length (fst (chunk_loop seq base rem (k # ks) (out, i))) =
        map length (out @ [py_slice seq i (i + ?sz)]) @ map (\<lambda>k. nat (chunk_size base rem k)) ks"
    using Cons.IH [of "i + ?sz" "out @ [py_slice seq i (i + ?sz)]"] Cons.prems sz
    by (simp add: Let_def chunk_size_def [symmetric] add.assoc)
  then show ?case using fit Cons.prems sz by (simp add: py_slice_nonneg)
qed

lemma sum_chunk_sizes:
  "0 \<le> r \<Longrightarrow> sum_list (map (chunk_size base r) (map int [0..<p])) = base * int p + min r (int p)"
  by (induction p) (auto simp: chunk_size_def algebra_simps min_def)


lemma sum_chunk_sizes_range:
  "0 \<le> r \<Longrightarrow> 0 \<le> p \<Longrightarrow>
   sum_list (map (chunk_size base r) (py_range p)) = base * p + min r p"
  using sum_chunk_sizes [of r base "nat p"] by (simp add: py_range_def)

lemma nth_py_range: "k < nat p \<Longrightarrow> py_range p ! k = int k"
  by (simp add: py_range_def)

lemma length_py_range: "length (py_range p) = nat p"
  by (simp add: py_range_def)

lemma chunk_loop_even_split:
  fixes seq :: "'a list"
  assumes "1 \<le> parts"
  shows "length (fst (chunk_loop seq (int (length seq) div parts) (int (length seq) mod parts)
            (py_range parts) ([], 0))) = nat parts"
    and "concat (fst (chunk_loop seq (int (length seq) div parts) (int (length seq) mod parts)
            (py_range parts) ([], 0))) = seq"
    and "map length (fst (chunk_loop seq (int (length seq) div parts) (int (length seq) mod parts)
            (py_range parts) ([], 0))) =
         map (\<lambda>k. nat (chunk_size (int (length seq) div parts) (int (length seq) mod parts) k))
            (py_range parts)"
proof -
  let ?n = "int (length seq)"
  have base: "0 \<le> ?n div parts" using assms by (simp add: pos_imp_zdiv_nonneg_iff)
  have rem: "0 \<le> ?n mod parts" "?n mod parts < parts" using assms by simp_all
  have "sum_list (map (chunk_size (?n div parts) (?n mod parts)) (py_range parts)) =
        ?n div parts * parts + min (?n mod parts) parts"
    using rem(1) assms by (intro sum_chunk_sizes_range) simp_all
  also have "\<dots> = ?n" using rem(2) by (simp add: min_def)
  finally have total: "sum_list (map (chunk_size (?n div parts) (?n mod parts)) (py_range parts)) = ?n" .
  show "length (fst (chunk_loop seq (?n div parts) (?n mod parts) (py_range parts) ([], 0))) = nat parts"
    by (simp add: chunk_loop_length length_py_range)
  show "concat (fst (chunk_loop seq (?n div parts) (?n mod parts) (py_range parts) ([], 0))) = seq"
    using chunk_loop_concat [of 0 "?n div parts" seq "?n mod parts" "py_range parts" "[]"] base
    by (simp add: total)
  show "map length (fst (chunk_loop seq (?n div parts) (?n mod parts) (py_range parts) ([], 0))) =
        map (\<lambda>k. nat (chunk_size (?n div parts) (?n mod parts) k)) (py_range parts)"
    using chunk_loop_lengths [of 0 "?n div parts" "?n mod parts" "py_range parts" seq "[]"] base
    by (simp add: total)
qed

text \<open>
  Claim C10. For every list \<open>seq\<close> and every \<open>parts \<ge> 1\<close>, \<open>chunks_even(seq, parts)\<close> returns
  exactly \<open>parts\<close> lists whose concatenation is \<open>seq\<close>; chunk \<open>k\<close> has
  \<open>len(seq) // parts\<close> elements, plus one when \<open>k < len(seq) % parts\<close>, so the longer chunks
  come first; and \<open>chunkify(seq, parts)\<close> returns the same list of chunks.
\<close>

theorem chunks_even_partition:
  assumes "1 \<le> parts"
  shows "\<exists>out. chunks_even seq parts = Inr out \<and> chunkify seq parts = out \<and>
           length out = nat parts \<and> concat out = seq \<and>
           (\<forall>k < nat parts. int (length (out ! k)) =
              int (length seq) div parts + (if int k < int (length seq) mod parts then 1 else 0))"
proof -
  let ?n = "int (length seq)"
  let ?out = "fst (chunk_loop seq (?n div parts) (?n mod parts) (py_range parts) ([], 0))"
  note split = chunk_loop_even_split [OF assms, of seq]
  have base: "0 \<le> ?n div parts" using assms by (simp add: pos_imp_zdiv_nonneg_iff)
  have ce: "chunks_even seq parts = Inr ?out"
    using assms by (simp add: chunks_even_def Let_def)
  have cf: "chunkify seq parts = ?out"
    using assms by (simp add: chunkify_def Let_def max_def)
  have len: "int (length (?out ! k)) =
      ?n div parts + (if int k < ?n mod parts then 1 else 0)" if "k < nat parts" for k
  proof -
    have "length (?out ! k) = map length ?out ! k"
      using that split(1) by simp
    also have "\<dots> = nat (chunk_size (?n div parts) (?n mod parts) (int k))"
      using that by (simp only: split(3)) (simp add: length_py_range nth_py_range)
    finally show ?thesis using base by (simp add: chunk_size_def)
  qed
  show ?thesis using ce cf split(1,2) len by blast
qed

theorem chunks_even_partition_witness:
  "\<exists>out. chunks_even [1, 2, 3, 4, 5, 6, 7 :: nat] 3 = Inr out \<and>
     chunkify [1, 2, 3, 4, 5, 6, 7 :: nat] 3 = out \<and> length out = 3 \<and>
     concat out = [1, 2, 3, 4, 5, 6, 7] \<and>
     length (out ! 0) = 3 \<and> length (out ! 1) = 2 \<and> length (out ! 2) = 2"
proof -
  have parts: "1 \<le> (3::int)" by simp
  from chunks_even_partition [OF parts, of "[1, 2, 3, 4, 5, 6, 7 :: nat]"]
  obtain out where out: "chunks_even [1, 2, 3, 4, 5, 6, 7 :: nat] 3 = Inr out"
      "chunkify [1, 2, 3, 4, 5, 6, 7 :: nat] 3 = out" "length out = nat 3"
      "concat out = [1, 2, 3, 4, 5, 6, 7]"
      "\<forall>k < nat 3. int (length (out ! k)) =
          int (length [1, 2, 3, 4, 5, 6, 7 :: nat]) div 3 +
          (if int k < int (length [1, 2, 3, 4, 5, 6, 7 :: nat]) mod 3 then 1 else 0)"
    by blast
  have "int (length (out ! 0)) = 3" "int (length (out ! 1)) = 2" "int (length (out ! 2)) = 2"
    using out(5) by simp_all
  then show ?thesis using out(1-4) by simp
qed

section \<open>Properties of the per-well state\<close>

lemma fmlookup_setdefault:
  "fmlookup (setdefault m k v) k' =
     (if k' = k then Some (setdefault_value m k v) else fmlookup m k')"
  by (auto simp: setdefault_def setdefault_value_def split: option.splits)

lemma fmlookup_ensure_entries:
  "fmlookup (ensure_entries ss fs) s =
     (case fmlookup fs s of Some m \<Rightarrow> Some m
      | None \<Rightarrow> if s \<in> set ss then Some new_file else None)"
  by (induction ss arbitrary: fs)
     (auto simp: fmlookup_setdefault setdefault_value_def split: option.splits)

lemma dashboard_update_commute:
  "(d::dashboard)\<lparr>last_update := t, d_status := x\<rparr> = d\<lparr>d_status := x, last_update := t\<rparr>"
  by (cases d) simp

lemma all_complete_iff:
  "all_complete fs \<longleftrightarrow> (\<forall>meta. meta |\<in>| fmran fs \<longrightarrow> f_status meta = ''complete'')"
  by (auto simp: all_complete_def)

lemma fmran_fmupd: "fmran (fmupd k v m) = finsert v (fmran (fmdrop k m))"
proof (rule fset_eqI)
  fix y
  show "y |\<in>| fmran (fmupd k v m) \<longleftrightarrow> y |\<in>| finsert v (fmran (fmdrop k m))"
  proof
    assume "y |\<in>| fmran (fmupd k v m)"
    then obtain x where x: "fmlookup (fmupd k v m) x = Some y"
      by (auto simp: fmlookup_ran_iff)
    show "y |\<in>| finsert v (fmran (fmdrop k m))"
    proof (cases "x = k")
      case True
      then show ?thesis using x by simp
    next
      case False
      then have "fmlookup (fmdrop k m) x = Some y" using x by simp
      then have "y |\<in>| fmran (fmdrop k m)" by (rule fmranI)
      then show ?thesis by (simp del: fmran_drop)
    qed
  next
    assume "y |\<in>| finsert v (fmran (fmdrop k m))"
    then consider "y = v" | "y |\<in>| fmran (fmdrop k m)" by (auto simp del: fmran_drop)
    then show "y |\<in>| fmran (fmupd k v m)"
    proof cases
      case 1
      have "fmlookup (fmupd k v m) k = Some v" by simp
      then show ?thesis unfolding 1 by (rule fmranI)
    next
      case 2
      then obtain x where x: "fmlookup (fmdrop k m) x = Some y"
        by (auto simp: fmlookup_ran_iff simp del: fmran_drop)
      then have "x \<noteq> k" by (auto split: if_splits)
      then have "fmlookup (fmupd k v m) x = Some y" using x by simp
      then show ?thesis by (rule fmranI)
    qed
  qed
qed

lemma all_complete_upd:
  "all_complete (fmupd k v fs) \<longleftrightarrow> f_status v = ''complete'' \<and> all_complete (fmdrop k fs)"
  by (simp add: all_complete_iff fmran_fmupd del: fmran_drop) blast

lemma all_complete_empty: "all_complete fmempty"
  by (simp add: all_complete_def)

lemma mark_once_example:
  "state_mark_sheet_complete
        \<lparr>well_label = ''W'', uwi_wrapped = '''', wells_txt_entry = None,
         dashboards = fmupd ''D'' \<lparr>d_status = ''incomplete'',
            files = fmupd ''A'' \<lparr>f_status = ''complete'', s3_key = ''k''\<rparr> fmempty,
            last_update = ''''\<rparr> fmempty,
         updated_at = ''''\<rparr> ''D'' ''B'' ''Data/W/D/B.csv'' ''t1'' ''t2'' =
   \<lparr>well_label = ''W'', uwi_wrapped = '''', wells_txt_entry = None,
         dashboards = fmupd ''D'' \<lparr>d_status = ''complete'',
            files = fmupd ''B'' \<lparr>f_status = ''complete'', s3_key = ''Data/W/D/B.csv''\<rparr>
               (fmupd ''A'' \<lparr>f_status = ''complete'', s3_key = ''k''\<rparr> fmempty),
            last_update = ''t1''\<rparr> fmempty,
         updated_at = ''t2''\<rparr>"
  by (simp add: state_mark_sheet_complete_def state_save_def Let_def setdefault_value_def
        new_file_def all_complete_upd all_complete_empty fmdrop_fmupd)

text \<open>
  Claim C4. \<open>state_list_incomplete_sheets\<close> returns the sheets of \<open>all_sheets\<close>, in manifest
  order, whose entry in the dashboard's \<open>files\<close> map does not have status \<open>complete\<close> (the same
  sheets whether the map is read before or after the call), and after the call every sheet of
  \<open>all_sheets\<close> has an entry: the one it had, or the default
  \<open>{"status": "incomplete", "s3_key": ""}\<close>.
\<close>

theorem state_list_incomplete_sheets_spec:
  assumes "state_list_incomplete_sheets st dash_code all_sheets = (res, st')"
    and "old = (case fmlookup (dashboards st) dash_code of None \<Rightarrow> fmempty | Some d \<Rightarrow> files d)"
  shows "res = filter (\<lambda>s. map_option f_status (fmlookup old s) \<noteq> Some ''complete'') all_sheets \<and>
     (\<exists>d'. fmlookup (dashboards st') dash_code = Some d' \<and>
        res = filter (\<lambda>s. map_option f_status (fmlookup (files d') s) \<noteq> Some ''complete'') all_sheets \<and>
        (\<forall>s \<in> set all_sheets.
           fmlookup (files d') s = Some (case fmlookup old s of None \<Rightarrow> new_file | Some m \<Rightarrow> m)))"
proof -
  let ?d = "setdefault_value (dashboards st) dash_code new_dashboard"
  let ?fs = "ensure_entries all_sheets (files ?d)"
  have old: "old = files ?d"
    using assms(2) by (simp add: setdefault_value_def new_dashboard_def split: option.splits)
  have res: "res = filter (\<lambda>s. map_option f_status (fmlookup ?fs s) \<noteq> Some ''complete'') all_sheets"
    and st': "fmlookup (dashboards st') dash_code = Some (?d\<lparr>files := ?fs\<rparr>)"
    using assms(1) by (auto simp: state_list_incomplete_sheets_def Let_def)
  have entry: "fmlookup ?fs s = Some (case fmlookup old s of None \<Rightarrow> new_file | Some m \<Rightarrow> m)"
    if "s \<in> set all_sheets" for s
    using that by (simp add: fmlookup_ensure_entries old split: option.splits)
  have "res = filter (\<lambda>s. map_option f_status (fmlookup old s) \<noteq> Some ''complete'') all_sheets"
    unfolding res
    by (rule filter_cong) (auto simp: entry new_file_def split: option.splits)
  then show ?thesis using res st' entry by simp
qed

theorem state_list_incomplete_sheets_spec_witness:
  "\<exists>st' d'. state_list_incomplete_sheets
       \<lparr>well_label = ''W'', uwi_wrapped = '''', wells_txt_entry = None,
        dashboards = fmupd ''D'' \<lparr>d_status = ''incomplete'',
           files = fmupd ''A'' \<lparr>f_status = ''complete'', s3_key = ''k''\<rparr> fmempty,
           last_update = ''''\<rparr> fmempty,
        updated_at = ''''\<rparr> ''D'' [''A'', ''B''] = ([''B''], st') \<and>
     fmlookup (dashboards st') ''D'' = Some d' \<and>
     fmlookup (files d') ''A'' = Some \<lparr>f_status = ''complete'', s3_key = ''k''\<rparr> \<and>
     fmlookup (files d') ''B'' = Some \<lparr>f_status = ''incomplete'', s3_key = ''''\<rparr>"
proof -
  let ?st = "\<lparr>well_label = ''W'', uwi_wrapped = '''', wells_txt_entry = None,
        dashboards = fmupd ''D'' \<lparr>d_status = ''incomplete'',
           files = fmupd ''A'' \<lparr>f_status = ''complete'', s3_key = ''k''\<rparr> fmempty,
           last_update = ''''\<rparr> fmempty,
        updated_at = ''''\<rparr>"
  obtain res st' where run: "state_list_incomplete_sheets ?st ''D'' [''A'', ''B''] = (res, st')"
    by (cases "state_list_incomplete_sheets ?st ''D'' [''A'', ''B'']")
  from state_list_incomplete_sheets_spec [OF run refl]
  show ?thesis using run by (auto simp: new_file_def)
qed

text \<open>
  Claim C2. Marking the same sheet complete a second time changes nothing but the two
  timestamps: the second result is the first one with \<open>last_update\<close> of the dashboard and
  \<open>updated_at\<close> replaced, and in both the sheet's entry is \<open>complete\<close> with the given key.
\<close>

theorem state_mark_sheet_complete_idempotent:
  "\<exists>d. fmlookup (dashboards (state_mark_sheet_complete st dash_code sheet key t1 t2)) dash_code = Some d \<and>
     fmlookup (files d) sheet = Some \<lparr>f_status = ''complete'', s3_key = key\<rparr> \<and>
     state_mark_sheet_complete (state_mark_sheet_complete st dash_code sheet key t1 t2)
        dash_code sheet key t3 t4 =
     (state_mark_sheet_complete st dash_code sheet key t1 t2)
        \<lparr>dashboards := fmupd dash_code (d\<lparr>last_update := t3\<rparr>)
           (dashboards (state_mark_sheet_complete st dash_code sheet key t1 t2)),
         updated_at := t4\<rparr>"
  by (simp add: state_mark_sheet_complete_def state_save_def Let_def setdefault_value_def
        dashboard_update_commute)

theorem state_mark_sheet_complete_idempotent_witness:
  "state_mark_sheet_complete (state_mark_sheet_complete
        \<lparr>well_label = ''W'', uwi_wrapped = '''', wells_txt_entry = None,
         dashboards = fmupd ''D'' \<lparr>d_status = ''incomplete'',
            files = fmupd ''A'' \<lparr>f_status = ''complete'', s3_key = ''k''\<rparr> fmempty,
            last_update = ''''\<rparr> fmempty,
         updated_at = ''''\<rparr> ''D'' ''B'' ''Data/W/D/B.csv'' ''t1'' ''t2'')
        ''D'' ''B'' ''Data/W/D/B.csv'' ''t3'' ''t4'' =
     \<lparr>well_label = ''W'', uwi_wrapped = '''', wells_txt_entry = None,
      dashboards = fmupd ''D'' \<lparr>d_status = ''complete'',
         files = fmupd ''B'' \<lparr>f_status = ''complete'', s3_key = ''Data/W/D/B.csv''\<rparr>
            (fmupd ''A'' \<lparr>f_status = ''complete'', s3_key = ''k''\<rparr> fmempty),
         last_update = ''t3''\<rparr> fmempty,
      updated_at = ''t4''\<rparr>"
proof -
  let ?st = "\<lparr>well_label = ''W'', uwi_wrapped = '''', wells_txt_entry = None,
         dashboards = fmupd ''D'' \<lparr>d_status = ''incomplete'',
            files = fmupd ''A'' \<lparr>f_status = ''complete'', s3_key = ''k''\<rparr> fmempty,
            last_update = ''''\<rparr> fmempty,
         updated_at = ''''\<rparr>"
  let ?once = "state_mark_sheet_complete ?st ''D'' ''B'' ''Data/W/D/B.csv'' ''t1'' ''t2''"
  from state_mark_sheet_complete_idempotent
    [of ?st "''D''" "''B''" "''Data/W/D/B.csv''" "''t1''" "''t2''" "''t3''" "''t4''"]
  obtain d where d: "fmlookup (dashboards ?once) ''D'' = Some d"
    and twice: "state_mark_sheet_complete ?once ''D'' ''B'' ''Data/W/D/B.csv'' ''t3'' ''t4'' =
     ?once\<lparr>dashboards := fmupd ''D'' (d\<lparr>last_update := ''t3''\<rparr>) (dashboards ?once),
        updated_at := ''t4''\<rparr>"
    by blast
  have "d = \<lparr>d_status = ''complete'',
         files = fmupd ''B'' \<lparr>f_status = ''complete'', s3_key = ''Data/W/D/B.csv''\<rparr>
            (fmupd ''A'' \<lparr>f_status = ''complete'', s3_key = ''k''\<rparr> fmempty),
         last_update = ''t1''\<rparr>"
    using d unfolding mark_once_example by simp
  then show ?thesis unfolding twice unfolding mark_once_example by simp
qed

text \<open>
  Claim C9. After \<open>state_mark_sheet_complete\<close> or \<open>state_mark_dashboard_done\<close> has run for a
  dashboard, its \<open>status\<close> is \<open>complete\<close> exactly when every entry of its \<open>files\<close> map has
  status \<open>complete\<close>; an empty map counts as complete.
\<close>

theorem dashboard_status_invariant:
  assumes "st' = state_mark_sheet_complete st dash_code sheet key t1 t2 \<or>
           st' = state_mark_dashboard_done st dash_code t1 t2"
  shows "\<exists>d. fmlookup (dashboards st') dash_code = Some d \<and>
           (d_status d = ''complete'' \<longleftrightarrow>
            (\<forall>meta. meta |\<in>| fmran (files d) \<longrightarrow> f_status meta = ''complete''))"
  using assms
  by (auto simp: state_mark_sheet_complete_def state_mark_dashboard_done_def state_save_def
        Let_def all_complete_iff)

theorem dashboard_status_invariant_witness:
  "\<exists>d. fmlookup (dashboards (state_mark_dashboard_done
        \<lparr>well_label = ''W'', uwi_wrapped = '''', wells_txt_entry = None,
         dashboards = fmupd ''D'' \<lparr>d_status = ''incomplete'',
            files = fmupd ''A'' \<lparr>f_status = ''complete'', s3_key = ''k''\<rparr> fmempty,
            last_update = ''''\<rparr> fmempty,
         updated_at = ''''\<rparr> ''D'' ''t1'' ''t2'')) ''D'' = Some d \<and>
     files d = fmupd ''A'' \<lparr>f_status = ''complete'', s3_key = ''k''\<rparr> fmempty \<and>
     d_status d = ''complete''"
proof -
  let ?st = "\<lparr>well_label = ''W'', uwi_wrapped = '''', wells_txt_entry = None,
         dashboards = fmupd ''D'' \<lparr>d_status = ''incomplete'',
            files = fmupd ''A'' \<lparr>f_status = ''complete'', s3_key = ''k''\<rparr> fmempty,
            last_update = ''''\<rparr> fmempty,
         updated_at = ''''\<rparr>"
  have run: "state_mark_dashboard_done ?st ''D'' ''t1'' ''t2'' =
        state_mark_sheet_complete ?st ''D'' ''B'' ''k'' ''t1'' ''t2'' \<or>
      state_mark_dashboard_done ?st ''D'' ''t1'' ''t2'' =
        state_mark_dashboard_done ?st ''D'' ''t1'' ''t2''"
    by simp
  from dashboard_status_invariant [OF run]
  obtain d where d:
    "fmlookup (dashboards (state_mark_dashboard_done ?st ''D'' ''t1'' ''t2'')) ''D'' = Some d"
    "d_status d = ''complete'' \<longleftrightarrow>
       (\<forall>meta. meta |\<in>| fmran (files d) \<longrightarrow> f_status meta = ''complete'')"
    by blast
  have fs: "files d = fmupd ''A'' \<lparr>f_status = ''complete'', s3_key = ''k''\<rparr> fmempty"
    using d(1)
    by (auto simp: state_mark_dashboard_done_def state_save_def Let_def setdefault_value_def)
  have "\<forall>meta. meta |\<in>| fmran (files d) \<longrightarrow> f_status meta = ''complete''"
    unfolding fs by (auto simp: fmlookup_ran_iff split: if_splits)
  then show ?thesis using d fs by simp
qed


section \<open>Properties of the well identifier forms\<close>

lemma strip_last_not_space: "strip u \<noteq> [] \<Longrightarrow> \<not> is_space (last (strip u))"
proof -
  assume ne: "strip u \<noteq> []"
  let ?r = "dropWhile is_space (rev (dropWhile is_space u))"
  have r: "?r \<noteq> []" using ne by (simp add: strip_def)
  have "last (strip u) = hd ?r" using r by (simp add: strip_def last_rev)
  moreover have "\<not> is_space (hd ?r)" using r by (rule hd_dropWhile)
  ultimately show ?thesis by simp
qed

lemma strip_id:
  assumes "s \<noteq> []" "\<not> is_space (hd s)" "\<not> is_space (last s)"
  shows "strip s = s"
proof -
  have a: "dropWhile is_space s = s" using assms(1,2) by (cases s) simp_all
  have "rev s \<noteq> []" "\<not> is_space (hd (rev s))" using assms(1,3) by (simp_all add: hd_rev)
  then have b: "dropWhile is_space (rev s) = rev s" by (cases "rev s") simp_all
  show ?thesis by (simp add: strip_def a b)
qed

lemma strip_wrapped: "strip (''00/'' @ s @ ''/0'') = ''00/'' @ s @ ''/0''"
  by (rule strip_id) (simp_all add: is_space_def)

lemma match_body_wrapped:
  assumes "s \<noteq> []" "CHR 0x0A \<notin> set s"
  shows "match_body (s @ ''/0'') (length s + 2) = Some (s, ''0'')"
proof -
  obtain m where m: "length s = Suc m" using assms(1) by (cases s) auto
  have t0: "\<not> match_tail []" and t1: "\<not> match_tail ''0''" and t2: "match_tail ''/0''"
    by (simp_all add: match_tail_def is_digit_def)
  have "match_body (s @ ''/0'') (Suc (Suc (Suc m))) = Some (s, ''0'')"
    using assms(2) m t0 t1 t2 by simp
  then show ?thesis by (simp add: m)
qed

lemma WRAPPED_RE_match_wrapped:
  assumes "s \<noteq> []" "CHR 0x0A \<notin> set s"
  shows "WRAPPED_RE_match (''00/'' @ s @ ''/0'') = Some (''00'', s, ''0'')"
  using match_body_wrapped [OF assms]
  by (simp add: WRAPPED_RE_match_def match_prefix_def is_upper_or_digit_def)

lemma match_tail_cases:
  assumes "match_tail t"
  obtains d where "t = [CHR ''/'', d]" "is_digit d"
  | d where "t = [CHR ''/'', d, CHR 0x0A]" "is_digit d"
  using assms unfolding match_tail_def
  by (auto split: list.splits)

lemma match_body_SomeD:
  "match_body rest n = Some (body, digit) \<Longrightarrow>
   \<exists>k. match_tail (drop k rest) \<and> digit = take 1 (tl (drop k rest))"
proof (induction n)
  case 0
  then show ?case by simp
next
  case (Suc n)
  show ?case
  proof (cases "(\<forall>c \<in> set (take (Suc n) rest). c \<noteq> CHR 0x0A) \<and> match_tail (drop (Suc n) rest)")
    case True
    then have "match_body rest (Suc n) = Some (take (Suc n) rest, take 1 (drop (Suc (Suc n)) rest))"
      unfolding match_body.simps by (rule if_P)
    then have "digit = take 1 (drop (Suc (Suc n)) rest)" using Suc.prems by simp
    also have "drop (Suc (Suc n)) rest = tl (drop (Suc n) rest)"
      by (simp add: drop_Suc tl_drop)
    finally show ?thesis using True by blast
  next
    case False
    then have "match_body rest (Suc n) = match_body rest n"
      unfolding match_body.simps by (rule if_not_P)
    then have "match_body rest n = Some (body, digit)" using Suc.prems by simp
    then show ?thesis by (rule Suc.IH)
  qed
qed

lemma drop_eq_endswith:
  assumes "drop k s = t"
  shows "endswith s t"
proof -
  have "length t = length s - k" using assms by auto
  then show ?thesis using assms
    by (cases "k \<le> length s") (auto simp: endswith_def)
qed

lemma match_prefix_00:
  assumes "match_prefix p (strip u) = Some (''00'', body, ''0'')"
  shows "startswith (strip u) ''00/'' \<and> endswith (strip u) ''/0''"
proof -
  let ?s = "strip u"
  from assms have p: "p < length ?s" and pre: "take p ?s = ''00''" and sl: "?s ! p = CHR ''/''"
    and mb: "match_body (drop (Suc p) ?s) (length ?s - Suc p) = Some (body, ''0'')"
    by (auto simp: match_prefix_def split: if_splits option.splits)
  have p2: "p = 2" using pre p by (metis length_take min.absorb2 less_imp_le length_Cons list.size(3) numeral_2_eq_2)
  have start: "startswith ?s ''00/''"
    using p pre sl unfolding p2 startswith_def
    by (simp add: take_Suc_conv_app_nth numeral_3_eq_3 numeral_2_eq_2)
  from match_body_SomeD [OF mb] obtain k where
    tail: "match_tail (drop k (drop (Suc p) ?s))"
    and dig: "''0'' = take 1 (tl (drop k (drop (Suc p) ?s)))" by blast
  have ne: "?s \<noteq> []" using p by auto
  from tail have "drop (k + Suc p) ?s = ''/0''"
  proof (cases rule: match_tail_cases)
    case (1 d)
    then have "d = CHR ''0''" using dig by simp
    then show ?thesis using 1 by (simp add: add.commute)
  next
    case (2 d)
    then have d: "drop (k + Suc p) ?s = [CHR ''/'', d, CHR 0x0A]" by (simp add: add.commute)
    have "last ?s = last (drop (k + Suc p) ?s)"
      using d by (intro last_drop [symmetric]) (metis drop_all list.distinct(1) not_le)
    then have "is_space (last ?s)" unfolding d by (simp add: is_space_def)
    then show ?thesis using strip_last_not_space [OF ne] by simp
  qed
  then have "endswith ?s ''/0''" by (rule drop_eq_endswith)
  then show ?thesis using start by simp
qed

lemma wrapped_neq: "''00/'' @ s @ ''/0'' \<noteq> s"
proof
  assume "''00/'' @ s @ ''/0'' = s"
  then have "length (''00/'' @ s @ ''/0'') = length s" by simp
  then show False by simp
qed

text \<open>
  Claim C5, as the code has it. The loader's \<open>wrap_uwi\<close> recognises a wrapped identifier by
  \<open>startswith("00/") and endswith("/0")\<close>, the scraper's \<open>ensure_wrapped\<close> by \<open>WRAPPED_RE\<close>.
  The two functions return the same string exactly when the two tests agree on the stripped
  input; in particular, for an input whose stripped form matches \<open>WRAPPED_RE\<close> with prefix
  \<open>00\<close> and final digit \<open>0\<close>, both return the stripped form unchanged.
\<close>

theorem wrap_uwi_vs_ensure_wrapped:
  "(wrap_uwi u = ensure_wrapped u \<longleftrightarrow>
      ((WRAPPED_RE_match (strip u) \<noteq> None) =
       (startswith (strip u) ''00/'' \<and> endswith (strip u) ''/0''))) \<and>
   (WRAPPED_RE_match (strip u) = Some (''00'', body, ''0'') \<longrightarrow>
      wrap_uwi u = strip u \<and> ensure_wrapped u = strip u)"
proof
  show "wrap_uwi u = ensure_wrapped u \<longleftrightarrow>
      ((WRAPPED_RE_match (strip u) \<noteq> None) =
       (startswith (strip u) ''00/'' \<and> endswith (strip u) ''/0''))"
    using wrapped_neq [of "strip u"] wrapped_neq [of "strip u", symmetric]
    by (cases "WRAPPED_RE_match (strip u)")
       (auto simp: wrap_uwi_def ensure_wrapped_def Let_def simp del: append.simps)
next
  show "WRAPPED_RE_match (strip u) = Some (''00'', body, ''0'') \<longrightarrow>
      wrap_uwi u = strip u \<and> ensure_wrapped u = strip u"
  proof
    assume m: "WRAPPED_RE_match (strip u) = Some (''00'', body, ''0'')"
    then consider "match_prefix 2 (strip u) = Some (''00'', body, ''0'')"
      | "match_prefix 1 (strip u) = Some (''00'', body, ''0'')"
      by (auto simp: WRAPPED_RE_match_def split: option.splits)
    then have "startswith (strip u) ''00/'' \<and> endswith (strip u) ''/0''"
      by cases (rule match_prefix_00, assumption)+
    then show "wrap_uwi u = strip u \<and> ensure_wrapped u = strip u"
      using m by (simp add: wrap_uwi_def ensure_wrapped_def)
  qed
qed

theorem wrap_uwi_vs_ensure_wrapped_witness:
  "wrap_uwi '' 00/01-01-013-16W4/0 '' = ''00/01-01-013-16W4/0'' \<and>
   ensure_wrapped '' 00/01-01-013-16W4/0 '' = ''00/01-01-013-16W4/0''"
proof -
  have s: "strip '' 00/01-01-013-16W4/0 '' = ''00/01-01-013-16W4/0''"
    by (simp add: strip_def is_space_def)
  have m: "WRAPPED_RE_match (strip '' 00/01-01-013-16W4/0 '') =
      Some (''00'', ''01-01-013-16W4'', ''0'')"
    unfolding s
    by (simp add: WRAPPED_RE_match_def match_prefix_def match_tail_def is_upper_or_digit_def
          is_digit_def)
  from wrap_uwi_vs_ensure_wrapped [of "'' 00/01-01-013-16W4/0 ''" "''01-01-013-16W4''"] m
  show ?thesis unfolding s by simp
qed

text \<open>
  The claim as stated fails: \<open>02/01-01-013-16W4/0\<close> matches \<open>WRAPPED_RE\<close>, so \<open>ensure_wrapped\<close>
  keeps it, and \<open>wrap_uwi\<close> wraps it a second time.
\<close>

theorem wrap_uwi_vs_ensure_wrapped_counterexample:
  "WRAPPED_RE_match ''02/01-01-013-16W4/0'' = Some (''02'', ''01-01-013-16W4'', ''0'') \<and>
   ensure_wrapped ''02/01-01-013-16W4/0'' = ''02/01-01-013-16W4/0'' \<and>
   wrap_uwi ''02/01-01-013-16W4/0'' = ''00/02/01-01-013-16W4/0/0'' \<and>
   wrap_uwi ''02/01-01-013-16W4/0'' \<noteq> ensure_wrapped ''02/01-01-013-16W4/0''"
  by (simp add: strip_def is_space_def ensure_wrapped_def wrap_uwi_def WRAPPED_RE_match_def
        match_prefix_def match_tail_def is_upper_or_digit_def is_digit_def Let_def
        startswith_def endswith_def)

text \<open>
  Claim C6, as the code has it. For every \<open>u\<close> whose stripped value is not empty, contains no
  line feed and does not match \<open>WRAPPED_RE\<close>: \<open>to_short_uwi(ensure_wrapped(u))\<close> is the
  stripped \<open>u\<close>, and wrapping a second time changes nothing.
\<close>

theorem uwi_round_trip:
  assumes "strip u \<noteq> []" and "WRAPPED_RE_match (strip u) = None"
    and "CHR 0x0A \<notin> set (strip u)"
  shows "to_short_uwi (ensure_wrapped u) = strip u \<and>
         ensure_wrapped (ensure_wrapped u) = ensure_wrapped u"
proof -
  have w: "ensure_wrapped u = ''00/'' @ strip u @ ''/0''"
    using assms(2) by (simp add: ensure_wrapped_def)
  have m: "WRAPPED_RE_match (''00/'' @ strip u @ ''/0'') = Some (''00'', strip u, ''0'')"
    using assms(1,3) by (rule WRAPPED_RE_match_wrapped)
  have short: "to_short_uwi (''00/'' @ strip u @ ''/0'') = strip u"
    unfolding to_short_uwi_def strip_wrapped m by simp
  have again: "ensure_wrapped (''00/'' @ strip u @ ''/0'') = ''00/'' @ strip u @ ''/0''"
    unfolding ensure_wrapped_def Let_def strip_wrapped m by simp
  show ?thesis unfolding w using short again by simp
qed

theorem uwi_round_trip_witness:
  "to_short_uwi (ensure_wrapped '' 01-01-013-16W4 '') = ''01-01-013-16W4'' \<and>
   ensure_wrapped (ensure_wrapped '' 01-01-013-16W4 '') = ''00/01-01-013-16W4/0''"
proof -
  have s: "strip '' 01-01-013-16W4 '' = ''01-01-013-16W4''"
    by (simp add: strip_def is_space_def)
  have a: "strip '' 01-01-013-16W4 '' \<noteq> []" unfolding s by simp
  have b: "WRAPPED_RE_match (strip '' 01-01-013-16W4 '') = None"
    unfolding s by (simp add: WRAPPED_RE_match_def match_prefix_def is_upper_or_digit_def)
  have c: "CHR 0x0A \<notin> set (strip '' 01-01-013-16W4 '')" unfolding s by simp
  have w: "ensure_wrapped '' 01-01-013-16W4 '' = ''00/01-01-013-16W4/0''"
    using b by (simp add: ensure_wrapped_def s)
  from uwi_round_trip [OF a b c] show ?thesis unfolding s w by simp
qed

text \<open>
  The claim as stated fails when the stripped value contains a line feed, which the \<open>.+\<close> of
  the pattern does not match: the wrapped form of \<open>a\<close>, line feed, \<open>b\<close> is not recognised as wrapped.
\<close>

theorem uwi_round_trip_counterexample:
  "strip [CHR ''a'', CHR 0x0A, CHR ''b''] = [CHR ''a'', CHR 0x0A, CHR ''b''] \<and>
   WRAPPED_RE_match (strip [CHR ''a'', CHR 0x0A, CHR ''b'']) = None \<and>
   to_short_uwi (ensure_wrapped [CHR ''a'', CHR 0x0A, CHR ''b'']) =
     ''00/'' @ [CHR ''a'', CHR 0x0A, CHR ''b''] @ ''/0'' \<and>
   to_short_uwi (ensure_wrapped [CHR ''a'', CHR 0x0A, CHR ''b'']) \<noteq>
     strip [CHR ''a'', CHR 0x0A, CHR ''b''] \<and>
   ensure_wrapped (ensure_wrapped [CHR ''a'', CHR 0x0A, CHR ''b'']) \<noteq>
     ensure_wrapped [CHR ''a'', CHR 0x0A, CHR ''b'']"
  by (simp add: strip_def is_space_def ensure_wrapped_def to_short_uwi_def WRAPPED_RE_match_def
        match_prefix_def match_tail_def is_upper_or_digit_def is_digit_def Let_def)

section \<open>Properties of the delimiter detectors\<close>

lemma py_max_key_None: "py_max_key f xs = None \<longleftrightarrow> xs = []"
  by (cases xs) simp_all

lemma modal_of_Some:
  assumes "\<And>cols. set (set_iter cols) = set cols" and "cols \<noteq> []"
  shows "\<exists>m. modal_of set_iter cols = Some m"
proof -
  have "set (set_iter cols) \<noteq> {}" using assms by simp
  then have "set_iter cols \<noteq> []" by auto
  then show ?thesis
    unfolding modal_of_def by (cases "set_iter cols") simp_all
qed

lemma delimiter_loop_step:
  assumes "modal_of set_iter (map (\<lambda>ln. int (count_list ln d) + 1) lines) = Some m"
  shows "\<exists>b'. fst b' \<in> {d, fst b0} \<and>
           delimiter_loop set_iter lines (d # ds) b0 = delimiter_loop set_iter lines ds b'"
  using assms by (cases b0) (auto simp: Let_def)

lemma delimiter_loop_result:
  assumes "\<And>cols. set (set_iter cols) = set cols" and "lines \<noteq> []"
  shows "\<exists>b. delimiter_loop set_iter lines ds b0 = Inr b \<and> fst b \<in> insert (fst b0) (set ds)"
proof (induction ds arbitrary: b0)
  case Nil
  then show ?case by simp
next
  case (Cons d ds)
  let ?cols = "map (\<lambda>ln. int (count_list ln d) + 1) lines"
  have "?cols \<noteq> []" using assms(2) by simp
  from modal_of_Some [OF assms(1) this] obtain m where m: "modal_of set_iter ?cols = Some m" ..
  from delimiter_loop_step [OF m, of b0 ds] obtain b' where b': "fst b' \<in> {d, fst b0}"
    and step: "delimiter_loop set_iter lines (d # ds) b0 = delimiter_loop set_iter lines ds b'"
    by blast
  from Cons.IH [of b'] obtain b where "delimiter_loop set_iter lines ds b' = Inr b"
    and "fst b \<in> insert (fst b') (set ds)" by blast
  then show ?case using b' step by auto
qed

lemma detect_on_lines:
  assumes "\<And>cols. set (set_iter cols) = set cols"
  shows "\<exists>d. (if lines = [] then Inr (CHR '','')
           else map_sum id fst (delimiter_loop set_iter lines [CHR '','', CHR '';'', CHR 0x09, CHR ''|'']
                  (CHR '','', None, 0))) = Inr d \<and>
          d \<in> set [CHR '','', CHR '';'', CHR 0x09, CHR ''|''] \<and> (lines = [] \<longrightarrow> d = CHR '','')"
proof (cases "lines = []")
  case True
  then show ?thesis by simp
next
  case False
  from delimiter_loop_result [OF assms False, of "[CHR '','', CHR '';'', CHR 0x09, CHR ''|'']" "(CHR '','', None, 0)"]
  obtain b where "delimiter_loop set_iter lines [CHR '','', CHR '';'', CHR 0x09, CHR ''|'']
                  (CHR '','', None, 0) = Inr b"
    and "fst b \<in> set [CHR '','', CHR '';'', CHR 0x09, CHR ''|'']" by auto
  then show ?thesis using False by simp
qed

text \<open>
  Claim C7, as the code has it. Whatever the iteration order of Python sets, both detectors
  return one of \<open>,\<close> \<open>;\<close> tab \<open>|\<close>, and \<open>,\<close> when the text has no non-blank line. The
  scraper's detector reads the first 50 non-blank lines and the loader's the first 60: they
  return the same delimiter for every text with at most 50 non-blank lines.
\<close>

theorem detect_delimiter_agree:
  assumes "\<And>cols. set (set_iter cols) = set cols"
  shows "\<exists>d d'. scraper_detect_delimiter set_iter text = Inr d \<and>
           detect_delimiter set_iter text = Inr d' \<and>
           d \<in> set [CHR '','', CHR '';'', CHR 0x09, CHR ''|''] \<and>
           d' \<in> set [CHR '','', CHR '';'', CHR 0x09, CHR ''|''] \<and>
           (nonblank_lines text = [] \<longrightarrow> d = CHR '','' \<and> d' = CHR '','') \<and>
           (length (nonblank_lines text) \<le> 50 \<longrightarrow> d = d')"
proof -
  let ?ls = "nonblank_lines text"
  from detect_on_lines [OF assms, of "take 50 ?ls"]
  obtain d where d: "scraper_detect_delimiter set_iter text = Inr d"
    "d \<in> set [CHR '','', CHR '';'', CHR 0x09, CHR ''|'']" "take 50 ?ls = [] \<longrightarrow> d = CHR '',''"
    unfolding scraper_detect_delimiter_def Let_def by blast
  from detect_on_lines [OF assms, of "take 60 ?ls"]
  obtain d' where d': "detect_delimiter set_iter text = Inr d'"
    "d' \<in> set [CHR '','', CHR '';'', CHR 0x09, CHR ''|'']" "take 60 ?ls = [] \<longrightarrow> d' = CHR '',''"
    unfolding detect_delimiter_def Let_def CANDIDATE_DELIMS_def by blast
  have "d = d'" if "length ?ls \<le> 50"
  proof -
    have "take 50 ?ls = take 60 ?ls" using that by simp
    then have "scraper_detect_delimiter set_iter text = detect_delimiter set_iter text"
      by (simp add: scraper_detect_delimiter_def detect_delimiter_def CANDIDATE_DELIMS_def)
    then show ?thesis using d(1) d'(1) by simp
  qed
  moreover have "?ls = [] \<longrightarrow> d = CHR '','' \<and> d' = CHR '',''"
    using d(3) d'(3) by simp
  ultimately show ?thesis using d(1,2) d'(1,2) by blast
qed

theorem detect_delimiter_agree_witness:
  "scraper_detect_delimiter remdups (''a;b'' @ [CHR 0x0A] @ ''c;d'') = Inr (CHR '';'') \<and>
   detect_delimiter remdups (''a;b'' @ [CHR 0x0A] @ ''c;d'') = Inr (CHR '';'')"
proof -
  have iter: "\<And>cols :: int list. set (remdups cols) = set cols" by simp
  have ls: "nonblank_lines (''a;b'' @ [CHR 0x0A] @ ''c;d'') = [''a;b'', ''c;d'']"
    by code_simp
  have s: "scraper_detect_delimiter remdups (''a;b'' @ [CHR 0x0A] @ ''c;d'') = Inr (CHR '';'')"
    by code_simp
  from detect_delimiter_agree [of remdups "''a;b'' @ [CHR 0x0A] @ ''c;d''", OF iter]
  obtain d d' where "scraper_detect_delimiter remdups (''a;b'' @ [CHR 0x0A] @ ''c;d'') = Inr d"
    "detect_delimiter remdups (''a;b'' @ [CHR 0x0A] @ ''c;d'') = Inr d'"
    "length (nonblank_lines (''a;b'' @ [CHR 0x0A] @ ''c;d'')) \<le> 50 \<longrightarrow> d = d'"
    by blast
  then show ?thesis unfolding ls using s by simp
qed

text \<open>
  The claim as stated fails on a longer text. Fifty lines \<open>;\<close> followed by one line \<open>x\<close>: the
  scraper sees only the fifty lines, where \<open>;\<close> splits every line in two, and returns \<open>;\<close>;
  the loader also sees line 51, which makes the \<open>;\<close> counts uneven, and returns \<open>,\<close>.
\<close>

theorem detect_delimiter_agree_counterexample:
  "scraper_detect_delimiter remdups (concat (replicate 50 [CHR '';'', CHR 0x0A]) @ ''x'') =
     Inr (CHR '';'') \<and>
   detect_delimiter remdups (concat (replicate 50 [CHR '';'', CHR 0x0A]) @ ''x'') =
     Inr (CHR '','')"
  by code_simp

section \<open>Properties of the storage helpers\<close>
















end
